theory Spec2Isabelle
  imports Complex_Main
begin

section \<open>The U-Net parameter planner and the test-time-augmentation flips\<close>

text \<open>
  The functions \<^verbatim>\<open>get_tta_flips\<close> and \<^verbatim>\<open>get_unet_params\<close> of
  \<^verbatim>\<open>PyTorch/computer_vision/segmentation/Unet/utils/utils.py\<close>.

  Python's floats are modelled as exact rationals (\<open>rat\<close>): the loop halves sizes,
  doubles spacings, divides each spacing by the smallest one and compares with 2 and 8, and
  rounding, overflow, infinities and NaN are outside the model. Python's unbounded
  integers are \<open>int\<close>. A raised exception is the \<open>Inl\<close> branch of a sum.
\<close>

subsection \<open>Errors\<close>

datatype py_error = ZeroDivisionError

subsection \<open>get\_tta\_flips\<close>

text \<open>
  \<^verbatim>\<open>
  def get_tta_flips(dim):
      if dim == 2:
          return [[2], [3], [2, 3]]
      return [[2], [3], [4], [2, 3], [2, 4], [3, 4], [2, 3, 4]]
  \<close>
  The function has no raising path: every call is an \<open>Inr\<close>. The argument
  \<^verbatim>\<open>dim\<close> is written \<open>d\<close>.
\<close>

definition get_tta_flips :: "int \<Rightarrow> py_error + int list list" where
  "get_tta_flips d =
     (if d = 2 then Inr [[2], [3], [2, 3]]
      else Inr [[2], [3], [4], [2, 3], [2, 4], [3, 4], [2, 3, 4]])"

subsection \<open>get\_unet\_params\<close>

text \<open>
  The record read by \<^verbatim>\<open>get_config_file\<close> (a pickled dictionary); the planner reads
  the four keys below. Reading the file is outside the model: the planner takes the
  record.
\<close>

record config =
  cfg_in_channels :: int
  cfg_n_class :: int
  cfg_patch_size :: "int list"
  cfg_spacings :: "rat list"

text \<open>
  \<^verbatim>\<open>spacing_ratio = [spacing / min(spacings) for spacing in spacings]\<close>

  \<^verbatim>\<open>min\<close> is evaluated once per element, so an empty list never calls it; on a
  non-empty list whose minimum is zero the division raises, which the loop below checks
  before it uses the ratios.
\<close>

definition spacing_ratio_of :: "rat list \<Rightarrow> rat list" where
  "spacing_ratio_of spacings = map (\<lambda>spacing. spacing / min_list spacings) spacings"

text \<open>
  \<^verbatim>\<open>stride = [2 if ratio <= 2 and size >= 8 else 1
            for (ratio, size) in zip(spacing_ratio, sizes)]\<close>
\<close>

definition stride_of :: "rat list \<Rightarrow> rat list \<Rightarrow> int list" where
  "stride_of spacing_ratio sizes =
     map (\<lambda>(ratio, size). if ratio \<le> 2 \<and> size \<ge> 8 then 2 else 1) (zip spacing_ratio sizes)"

text \<open>\<^verbatim>\<open>kernel = [3 if ratio <= 2 else 1 for ratio in spacing_ratio]\<close>\<close>

definition kernel_of :: "rat list \<Rightarrow> int list" where
  "kernel_of spacing_ratio = map (\<lambda>ratio. if ratio \<le> 2 then 3 else 1) spacing_ratio"

text \<open>\<^verbatim>\<open>sizes = [i / j for i, j in zip(sizes, stride)]\<close> (a stride is 1 or 2, never 0)\<close>

definition div_sizes :: "rat list \<Rightarrow> int list \<Rightarrow> rat list" where
  "div_sizes sizes stride = map (\<lambda>(i, j). i / of_int j) (zip sizes stride)"

text \<open>\<^verbatim>\<open>spacings = [i * j for i, j in zip(spacings, stride)]\<close>\<close>

definition mul_spacings :: "rat list \<Rightarrow> int list \<Rightarrow> rat list" where
  "mul_spacings spacings stride = map (\<lambda>(i, j). i * of_int j) (zip spacings stride)"

text \<open>
  The measure of the loop: the whole parts of the working sizes that are still at least 8.
  An iteration that does not leave the loop halves at least one such size.
\<close>

definition size_budget :: "rat list \<Rightarrow> nat" where
  "size_budget sizes = sum_list (map (\<lambda>s. if 8 \<le> s then nat \<lfloor>s\<rfloor> else 0) sizes)"

lemma size_budget_Nil [simp]: "size_budget [] = 0"
  by (simp add: size_budget_def)

lemma size_budget_Cons [simp]:
  "size_budget (s # sizes) = (if 8 \<le> s then nat \<lfloor>s\<rfloor> else 0) + size_budget sizes"
  by (simp add: size_budget_def)

lemma half_budget_less:
  fixes s :: rat
  assumes "8 \<le> s"
  shows "(if 8 \<le> s / 2 then nat \<lfloor>s / 2\<rfloor> else 0) < nat \<lfloor>s\<rfloor>"
proof -
  have "\<lfloor>s / 2\<rfloor> < \<lfloor>s\<rfloor>"
    using assms by (simp add: floor_less_iff) linarith
  moreover have "0 < \<lfloor>s\<rfloor>"
    using assms by (simp add: less_floor_iff)
  ultimately show ?thesis by auto
qed

lemma size_budget_div_le:
  "size_budget (div_sizes sizes (stride_of rs sizes)) \<le> size_budget sizes"
proof (induction sizes arbitrary: rs)
  case Nil
  show ?case by (simp add: div_sizes_def stride_of_def)
next
  case (Cons s sizes)
  show ?case
  proof (cases rs)
    case Nil
    then show ?thesis by (simp add: div_sizes_def stride_of_def)
  next
    case (Cons r rs')
    have "size_budget (div_sizes sizes (stride_of rs' sizes)) \<le> size_budget sizes"
      by (rule Cons.IH)
    moreover have "(if 8 \<le> s / 2 then nat \<lfloor>s / 2\<rfloor> else 0) \<le> nat \<lfloor>s\<rfloor>" if "8 \<le> s"
      using half_budget_less [OF that] by simp
    ultimately show ?thesis
      using Cons by (auto simp: div_sizes_def stride_of_def)
  qed
qed

lemma size_budget_div_less:
  "\<not> list_all (\<lambda>s. s = 1) (stride_of rs sizes) \<Longrightarrow>
   size_budget (div_sizes sizes (stride_of rs sizes)) < size_budget sizes"
proof (induction sizes arbitrary: rs)
  case Nil
  then show ?case by (simp add: stride_of_def)
next
  case (Cons s sizes)
  show ?case
  proof (cases rs)
    case Nil
    with Cons.prems show ?thesis by (simp add: stride_of_def)
  next
    case (Cons r rs')
    show ?thesis
    proof (cases "r \<le> 2 \<and> 8 \<le> s")
      case True
      have "size_budget (div_sizes sizes (stride_of rs' sizes)) \<le> size_budget sizes"
        by (rule size_budget_div_le)
      moreover have "(if 8 \<le> s / 2 then nat \<lfloor>s / 2\<rfloor> else 0) < nat \<lfloor>s\<rfloor>"
        using True half_budget_less by blast
      ultimately show ?thesis
        using Cons True by (auto simp: div_sizes_def stride_of_def)
    next
      case False
      with Cons.prems Cons have "\<not> list_all (\<lambda>s. s = 1) (stride_of rs' sizes)"
        by (auto simp: stride_of_def)
      then have "size_budget (div_sizes sizes (stride_of rs' sizes)) < size_budget sizes"
        by (rule Cons.IH)
      then show ?thesis
        using Cons False by (auto simp: div_sizes_def stride_of_def)
    qed
  qed
qed

text \<open>
  \<^verbatim>\<open>
  strides, kernels, sizes = [], [], patch_size[:]
  while True:
      spacing_ratio = [spacing / min(spacings) for spacing in spacings]
      stride = [2 if ratio <= 2 and size >= 8 else 1 for (ratio, size) in zip(spacing_ratio, sizes)]
      kernel = [3 if ratio <= 2 else 1 for ratio in spacing_ratio]
      if all(s == 1 for s in stride):
          break
      sizes = [i / j for i, j in zip(sizes, stride)]
      spacings = [i * j for i, j in zip(spacings, stride)]
      kernels.append(kernel)
      strides.append(stride)
      if len(strides) == 5:
          break
  \<close>
  The loop as a recursive function of its four variables; it returns them as they are
  when the loop is left.
\<close>

function unet_loop ::
  "rat list \<Rightarrow> rat list \<Rightarrow> int list list \<Rightarrow> int list list \<Rightarrow>
   py_error + (int list list \<times> int list list \<times> rat list \<times> rat list)" where
  "unet_loop spacings sizes kernels strides =
     (if spacings \<noteq> [] \<and> min_list spacings = 0 then Inl ZeroDivisionError
      else
        let spacing_ratio = spacing_ratio_of spacings;
            stride = stride_of spacing_ratio sizes;
            kernel = kernel_of spacing_ratio
        in if list_all (\<lambda>s. s = 1) stride then Inr (kernels, strides, sizes, spacings)
           else
             let sizes' = div_sizes sizes stride;
                 spacings' = mul_spacings spacings stride;
                 kernels' = kernels @ [kernel];
                 strides' = strides @ [stride]
             in if length strides' = 5 then Inr (kernels', strides', sizes', spacings')
                else unet_loop spacings' sizes' kernels' strides')"
  by pat_completeness auto
termination
  by (relation "measure (\<lambda>(spacings, sizes, kernels, strides). size_budget sizes)")
     (auto intro: size_budget_div_less)

declare unet_loop.simps [simp del]

text \<open>
  \<^verbatim>\<open>
  def get_unet_params(args):
      config = get_config_file(args)
      patch_size, spacings = config["patch_size"], config["spacings"]
      ... the loop ...
      strides.insert(0, len(spacings) * [1])
      kernels.append(len(spacings) * [3])
      return config["in_channels"], config["n_class"], kernels, strides, patch_size
  \<close>
\<close>

definition get_unet_params ::
  "config \<Rightarrow> py_error + (int \<times> int \<times> int list list \<times> int list list \<times> int list)" where
  "get_unet_params config =
     (let patch_size = cfg_patch_size config; spacings = cfg_spacings config
      in case unet_loop spacings (map of_int patch_size) [] [] of
           Inl e \<Rightarrow> Inl e
         | Inr (kernels, strides, sizes, spacings') \<Rightarrow>
             Inr (cfg_in_channels config, cfg_n_class config,
                  kernels @ [replicate (length spacings') 3],
                  replicate (length spacings') 1 # strides,
                  patch_size))"

subsection \<open>Valid inputs\<close>

text \<open>
  A valid input of the planner: patch sizes and spacings of the same length, all positive.
\<close>

definition valid_input :: "config \<Rightarrow> bool" where
  "valid_input config \<longleftrightarrow>
     length (cfg_patch_size config) = length (cfg_spacings config) \<and>
     list_all (\<lambda>p. 0 < p) (cfg_patch_size config) \<and>
     list_all (\<lambda>s. 0 < s) (cfg_spacings config)"




definition config_small :: config where
  "config_small =
     \<lparr>cfg_in_channels = 1, cfg_n_class = 2, cfg_patch_size = [4, 6],
      cfg_spacings = [1, 3]\<rparr>"

subsection \<open>The stages of the loop, by the number of iterations left\<close>

text \<open>
  For the proofs: the stages that the loop records when it may still record \<open>n\<close> of them,
  as (kernel, stride) pairs, and the working sizes and spacings it is left with. Lemma
  \<open>unet_loop_stages\<close> below shows that the loop computes exactly these.
\<close>

fun stages :: "nat \<Rightarrow> rat list \<Rightarrow> rat list \<Rightarrow> (int list \<times> int list) list" where
  "stages 0 spacings sizes = []"
| "stages (Suc n) spacings sizes =
     (let stride = stride_of (spacing_ratio_of spacings) sizes
      in if list_all (\<lambda>s. s = 1) stride then []
         else (kernel_of (spacing_ratio_of spacings), stride) #
              stages n (mul_spacings spacings stride) (div_sizes sizes stride))"

fun final_state :: "nat \<Rightarrow> rat list \<Rightarrow> rat list \<Rightarrow> rat list \<times> rat list" where
  "final_state 0 spacings sizes = (sizes, spacings)"
| "final_state (Suc n) spacings sizes =
     (let stride = stride_of (spacing_ratio_of spacings) sizes
      in if list_all (\<lambda>s. s = 1) stride then (sizes, spacings)
         else final_state n (mul_spacings spacings stride) (div_sizes sizes stride))"

section \<open>The loop and its stages\<close>

lemma stride_of_values: "set (stride_of rs sizes) \<subseteq> {1, 2}"
  by (auto simp: stride_of_def split: if_splits)


lemma length_spacing_ratio_of [simp]: "length (spacing_ratio_of spacings) = length spacings"
  by (simp add: spacing_ratio_of_def)

lemma length_stride_of [simp]: "length (stride_of rs sizes) = min (length rs) (length sizes)"
  by (simp add: stride_of_def)

lemma length_kernel_of [simp]: "length (kernel_of rs) = length rs"
  by (simp add: kernel_of_def)

lemma length_div_sizes [simp]: "length (div_sizes sizes stride) = min (length sizes) (length stride)"
  by (simp add: div_sizes_def)

lemma length_mul_spacings [simp]:
  "length (mul_spacings spacings stride) = min (length spacings) (length stride)"
  by (simp add: mul_spacings_def)

lemma min_list_pos:
  fixes spacings :: "rat list"
  assumes "list_all (\<lambda>s. 0 < s) spacings" "spacings \<noteq> []"
  shows "0 < min_list spacings"
proof -
  have "min_list spacings \<in> set spacings"
    using assms(2) by (simp add: min_list_Min)
  with assms(1) show ?thesis by (simp add: list_all_iff)
qed

lemma mul_spacings_pos:
  assumes "list_all (\<lambda>s. 0 < s) spacings"
  shows "list_all (\<lambda>s. 0 < s) (mul_spacings spacings (stride_of rs sizes))"
proof -
  have "0 < i * of_int j" if "(i, j) \<in> set (zip spacings (stride_of rs sizes))" for i :: rat and j
  proof -
    from that have "i \<in> set spacings" "j \<in> set (stride_of rs sizes)"
      by (auto dest: set_zip_leftD set_zip_rightD)
    with assms stride_of_values [of rs sizes] show ?thesis
      by (auto simp: list_all_iff)
  qed
  then show ?thesis
    by (auto simp: mul_spacings_def list_all_iff)
qed

lemma unet_loop_stages:
  assumes "list_all (\<lambda>s. 0 < s) spacings" "length strides + Suc m = 5"
  shows "unet_loop spacings sizes kernels strides =
           Inr (kernels @ map fst (stages (Suc m) spacings sizes),
                strides @ map snd (stages (Suc m) spacings sizes),
                final_state (Suc m) spacings sizes)"
  using assms
proof (induction m arbitrary: spacings sizes kernels strides)
  case 0
  then have "\<not> (spacings \<noteq> [] \<and> min_list spacings = 0)"
    using min_list_pos [of spacings] by auto
  with 0 show ?case
    by (subst unet_loop.simps) (simp add: Let_def)
next
  case (Suc m)
  then have nz: "\<not> (spacings \<noteq> [] \<and> min_list spacings = 0)"
    using min_list_pos [of spacings] by auto
  let ?st = "stride_of (spacing_ratio_of spacings) sizes"
  have "unet_loop (mul_spacings spacings ?st) (div_sizes sizes ?st) ks ss =
           Inr (ks @ map fst (stages (Suc m) (mul_spacings spacings ?st) (div_sizes sizes ?st)),
                ss @ map snd (stages (Suc m) (mul_spacings spacings ?st) (div_sizes sizes ?st)),
                final_state (Suc m) (mul_spacings spacings ?st) (div_sizes sizes ?st))"
    if "length ss + Suc m = 5" for ks ss
    using Suc.IH [OF mul_spacings_pos [OF Suc.prems(1)] that] .
  with nz Suc.prems(2) show ?case
    by (subst unet_loop.simps) (simp add: Let_def)
qed




lemma final_state_length:
  assumes "length spacings = length sizes"
  shows "length (snd (final_state n spacings sizes)) = length spacings"
  using assms
proof (induction n arbitrary: spacings sizes)
  case 0
  then show ?case by simp
next
  case (Suc n)
  let ?st = "stride_of (spacing_ratio_of spacings) sizes"
  have "length (mul_spacings spacings ?st) = length (div_sizes sizes ?st)"
    using Suc.prems by simp
  from Suc.IH [OF this] Suc.prems show ?case
    by (simp add: Let_def)
qed


lemma unet_loop_valid:
  assumes "valid_input config"
  shows "unet_loop (cfg_spacings config) (map of_int (cfg_patch_size config)) [] [] =
           Inr (map fst (stages 5 (cfg_spacings config) (map of_int (cfg_patch_size config))),
                map snd (stages 5 (cfg_spacings config) (map of_int (cfg_patch_size config))),
                final_state 5 (cfg_spacings config) (map of_int (cfg_patch_size config)))"
proof -
  have "list_all (\<lambda>s. 0 < s) (cfg_spacings config)"
    using assms by (simp add: valid_input_def)
  from unet_loop_stages [OF this, of "[]" 4] show ?thesis
    by (simp add: eval_nat_numeral)
qed

lemma get_unet_params_valid:
  assumes "valid_input config"
  shows "get_unet_params config =
           Inr (cfg_in_channels config, cfg_n_class config,
                map fst (stages 5 (cfg_spacings config) (map of_int (cfg_patch_size config))) @
                  [replicate (length (cfg_spacings config)) 3],
                replicate (length (cfg_spacings config)) 1 #
                  map snd (stages 5 (cfg_spacings config) (map of_int (cfg_patch_size config))),
                cfg_patch_size config)"
proof -
  have "length (cfg_spacings config) = length (map of_int (cfg_patch_size config) :: rat list)"
    using assms by (simp add: valid_input_def)
  from final_state_length [OF this, of 5] unet_loop_valid [OF assms] show ?thesis
    by (auto simp: get_unet_params_def Let_def split: prod.splits)
qed

section \<open>The flip enumeration\<close>

text \<open>
  Claim C4: \<open>get_tta_flips 2\<close> is exactly \<open>[[2],[3],[2,3]]\<close> and \<open>get_tta_flips 3\<close> is
  exactly \<open>[[2],[3],[4],[2,3],[2,4],[3,4],[2,3,4]]\<close>, as lists (length and order).
\<close>

theorem get_tta_flips_2_and_3:
  "get_tta_flips 2 = Inr [[2], [3], [2, 3]] \<and>
   get_tta_flips 3 = Inr [[2], [3], [4], [2, 3], [2, 4], [3, 4], [2, 3, 4]]"
  by (simp add: get_tta_flips_def)

text \<open>
  Claim C3, as amended: for every \<open>dim\<close> outside \<open>{2, 3}\<close> the function does not fail; it
  returns the seven-entry enumeration of the 3-D mode, the same list as for \<open>dim = 3\<close>.
  The claim as stated (an InvalidArgument-kind error for such a \<open>dim\<close>) fails at
  \<open>dim = 4\<close>, shown first.
\<close>

theorem get_tta_flips_4_returns:
  "\<not> isl (get_tta_flips 4) \<and>
   get_tta_flips 4 = Inr [[2], [3], [4], [2, 3], [2, 4], [3, 4], [2, 3, 4]]"
  by (simp add: get_tta_flips_def)

text \<open>
  Claim C3 (amended): outside \<open>{2, 3}\<close> the result is the 3-D enumeration, never an error.
\<close>

theorem get_tta_flips_other_dim:
  assumes "d \<noteq> 2" "d \<noteq> 3"
  shows "\<not> isl (get_tta_flips d) \<and> get_tta_flips d = get_tta_flips 3 \<and>
         get_tta_flips d = Inr [[2], [3], [4], [2, 3], [2, 4], [3, 4], [2, 3, 4]]"
  using assms by (simp add: get_tta_flips_def)

theorem get_tta_flips_other_dim_witness:
  "(7::int) \<noteq> 2 \<and> (7::int) \<noteq> 3 \<and> \<not> isl (get_tta_flips 7) \<and>
   get_tta_flips 7 = get_tta_flips 3 \<and>
   get_tta_flips 7 = Inr [[2], [3], [4], [2, 3], [2, 4], [3, 4], [2, 3, 4]]"
proof -
  have h2: "(7::int) \<noteq> 2" and h3: "(7::int) \<noteq> 3" by simp_all
  from h2 h3 get_tta_flips_other_dim [OF h2 h3] show ?thesis by blast
qed

section \<open>The plan returned for a valid input\<close>











text \<open>
  Claim C10: for every valid input whose first iteration already gives stride 1 on every
  axis (in particular when every patch dimension is below 8), the planner returns the
  one-stage plan: strides is the single all-ones vector and kernels the single all-threes
  vector.
\<close>

theorem no_downsampling_plan:
  assumes "valid_input config"
    and "list_all (\<lambda>p. p < 8) (cfg_patch_size config) \<or>
         list_all (\<lambda>s. s = 1)
           (stride_of (spacing_ratio_of (cfg_spacings config))
              (map of_int (cfg_patch_size config)))"
  shows "get_unet_params config =
           Inr (cfg_in_channels config, cfg_n_class config,
                [replicate (length (cfg_spacings config)) 3],
                [replicate (length (cfg_spacings config)) 1],
                cfg_patch_size config)"
proof -
  have "list_all (\<lambda>s. s = 1) (stride_of rs (map of_int ps))"
    if small: "list_all (\<lambda>p. p < 8) ps" for rs and ps :: "int list"
  proof -
    have "(if r \<le> 2 \<and> 8 \<le> z then 2 else 1) = (1::int)"
      if "(r, z) \<in> set (zip rs (map of_int ps))" for r z :: rat
    proof -
      from that have "z \<in> set (map of_int ps)"
        by (rule set_zip_rightD)
      then obtain p where "p \<in> set ps" "z = of_int p" by auto
      with small have "z < 8" by (simp add: list_all_iff)
      then show ?thesis by simp
    qed
    then show ?thesis
      by (auto simp: stride_of_def list_all_iff)
  qed
  with assms(2) have "list_all (\<lambda>s. s = 1)
           (stride_of (spacing_ratio_of (cfg_spacings config))
              (map of_int (cfg_patch_size config)))"
    by blast
  then have "stages 5 (cfg_spacings config) (map of_int (cfg_patch_size config)) = []"
    by (simp add: eval_nat_numeral)
  then show ?thesis
    by (simp add: get_unet_params_valid [OF assms(1)])
qed

theorem no_downsampling_plan_witness:
  "valid_input config_small \<and> list_all (\<lambda>p. p < 8) (cfg_patch_size config_small) \<and>
   get_unet_params config_small = Inr (1, 2, [[3, 3]], [[1, 1]], [4, 6])"
proof -
  have v: "valid_input config_small"
    by (simp add: valid_input_def config_small_def)
  have s: "list_all (\<lambda>p. p < 8) (cfg_patch_size config_small)"
    by (simp add: config_small_def)
  from no_downsampling_plan [OF v disjI1 [OF s]] v s show ?thesis
    by (simp add: config_small_def eval_nat_numeral)
qed

section \<open>Isotropic spacing and power-of-two patches\<close>















section \<open>Anisotropic spacing\<close>














end
